theory Spec2Isabelle
  imports Complex_Main
begin

section \<open>The Kaiser-Squires smoothing gridsearch of the planar reconstruction notebook\<close>

text \<open>
  The code embedded here is the gridsearch cell of
  \<^verbatim>\<open>docs/assets/static_notebooks/planar_reconstruction.ipynb\<close>:
  \<^verbatim>\<open>
  snr_max = 0
  smooth_max = 0
  for i in range(30):
      smoothed_ks = ndimage.gaussian_filter(np.real(ks), float(i+1))
      snr_iter = stats.snr(np.real(kappa_true), np.real(smoothed_ks))
      if snr_iter > snr_max:
          snr_max = snr_iter
          smooth_max = float(i+1)

  optimal_ks = ndimage.gaussian_filter(np.real(ks), smooth_max)
  \<close>
  \<open>ndimage.gaussian_filter\<close> (SciPy) and \<open>stats.snr\<close> (\<open>darkmappy.validation\<close>) are not
  part of the notebook; they are parameters of every definition below. The cell's first
  line (\<open>ks = ...ks_estimate(data)\<close>) and its last (\<open>make_plot\<close>) produce and display the
  fields and are not part of the search: \<open>ks\<close> and \<open>kappa_true\<close> are taken as bound.
\<close>

subsection \<open>Fields and scores\<close>

text \<open>
  A field is a two-dimensional array, a list of rows. \<open>kappa_true\<close> is complex in the
  notebook (\<open>np.load(...) + 0j\<close>) and so is the Kaiser-Squires estimate; \<open>np.real\<close> takes
  the real part of every pixel.
\<close>

type_synonym cfield = "complex list list"
type_synonym rfield = "real list list"

definition np_real :: "cfield \<Rightarrow> rfield" where
  "np_real x = map (map Re) x"

text \<open>
  On an array that is real already (\<open>smoothed_ks\<close>, the output of the filter on a real
  array) \<open>np.real\<close> returns the array itself.
\<close>

definition np_real_r :: "rfield \<Rightarrow> rfield" where
  "np_real_r x = x"

text \<open>
  A score is a Python float: a real number, an infinity or NaN. The scan compares scores
  with \<open>>\<close>, which is false as soon as one side is NaN.
\<close>

datatype pyfloat = NaN | NegInf | Fin real | PosInf

fun float_gt :: "pyfloat \<Rightarrow> pyfloat \<Rightarrow> bool" where
  "float_gt NaN y = False"
| "float_gt x NaN = False"
| "float_gt NegInf y = False"
| "float_gt (Fin a) NegInf = True"
| "float_gt (Fin a) (Fin b) = (b < a)"
| "float_gt (Fin a) PosInf = False"
| "float_gt PosInf PosInf = False"
| "float_gt PosInf y = True"

subsection \<open>The notebook's variables\<close>

text \<open>
  The calls the cell makes to its two collaborators, with their arguments, in order.
\<close>

datatype call = Gaussian_filter rfield real | Snr rfield rfield

text \<open>
  The variables the cell reads and writes. A variable the cell assigns before it reads
  is \<open>None\<close> while unbound. \<open>calls\<close> is not a variable of the notebook: it records the
  calls made so far, oldest first.
\<close>

record notebook =
  ks :: cfield
  kappa_true :: cfield
  snr_max :: pyfloat
  smooth_max :: real
  smoothed_ks :: "rfield option"
  snr_iter :: "pyfloat option"
  optimal_ks :: "rfield option"
  calls :: "call list"

subsection \<open>The scan\<close>

text \<open>
  One iteration of the loop body for the index \<open>i\<close>. The filter is total; the scorer
  may raise, and then the cell stops with the variables as they are at the raise.
\<close>

definition scan_step ::
  "(rfield \<Rightarrow> real \<Rightarrow> rfield) \<Rightarrow> (rfield \<Rightarrow> rfield \<Rightarrow> 'e + pyfloat) \<Rightarrow>
   nat \<Rightarrow> notebook \<Rightarrow> ('e \<times> notebook) + notebook" where
  "scan_step gaussian_filter snr i st =
    (let sigma = real (i + 1);
         raw = np_real (ks st);
         smoothed = gaussian_filter raw sigma;
         st1 = st\<lparr>smoothed_ks := Some smoothed,
                 calls := calls st @ [Gaussian_filter raw sigma]\<rparr>;
         truth = np_real (kappa_true st1);
         cand = np_real_r smoothed;
         st2 = st1\<lparr>calls := calls st1 @ [Snr truth cand]\<rparr>
     in case snr truth cand of
          Inl e \<Rightarrow> Inl (e, st2)
        | Inr v \<Rightarrow>
            (let st3 = st2\<lparr>snr_iter := Some v\<rparr>
             in if float_gt v (snr_max st3)
                then Inr (st3\<lparr>snr_max := v, smooth_max := sigma\<rparr>)
                else Inr st3))"

text \<open>The \<open>for\<close> loop over a list of indices; an exception ends it.\<close>

fun scan ::
  "(rfield \<Rightarrow> real \<Rightarrow> rfield) \<Rightarrow> (rfield \<Rightarrow> rfield \<Rightarrow> 'e + pyfloat) \<Rightarrow>
   nat list \<Rightarrow> notebook \<Rightarrow> ('e \<times> notebook) + notebook" where
  "scan gaussian_filter snr [] st = Inr st"
| "scan gaussian_filter snr (i # rest) st =
     (case scan_step gaussian_filter snr i st of
        Inl err \<Rightarrow> Inl err
      | Inr st' \<Rightarrow> scan gaussian_filter snr rest st')"

text \<open>Python's \<open>range(n)\<close>: the indices \<open>0, ..., n - 1\<close>, none when \<open>n \<le> 0\<close>.\<close>

definition py_range :: "int \<Rightarrow> nat list" where
  "py_range n = [0..<nat n]"

text \<open>
  The cell with the number of steps as a parameter (the notebook writes the literal 30).
\<close>

definition ks_gridsearch ::
  "(rfield \<Rightarrow> real \<Rightarrow> rfield) \<Rightarrow> (rfield \<Rightarrow> rfield \<Rightarrow> 'e + pyfloat) \<Rightarrow>
   int \<Rightarrow> notebook \<Rightarrow> ('e \<times> notebook) + notebook" where
  "ks_gridsearch gaussian_filter snr max_scale_steps st =
     (case scan gaussian_filter snr (py_range max_scale_steps)
             (st\<lparr>snr_max := Fin 0, smooth_max := 0\<rparr>) of
        Inl err \<Rightarrow> Inl err
      | Inr st' \<Rightarrow>
          Inr (st'\<lparr>optimal_ks := Some (gaussian_filter (np_real (ks st')) (smooth_max st')),
                   calls := calls st' @ [Gaussian_filter (np_real (ks st')) (smooth_max st')]\<rparr>))"

definition notebook_cell ::
  "(rfield \<Rightarrow> real \<Rightarrow> rfield) \<Rightarrow> (rfield \<Rightarrow> rfield \<Rightarrow> 'e + pyfloat) \<Rightarrow>
   notebook \<Rightarrow> ('e \<times> notebook) + notebook" where
  "notebook_cell gaussian_filter snr st = ks_gridsearch gaussian_filter snr 30 st"

text \<open>
  What a caller gets: the exception, or the triple of best scale, best smoothed field
  and best score.
\<close>

definition search_result ::
  "('e \<times> notebook) + notebook \<Rightarrow> 'e + (real \<times> rfield option \<times> pyfloat)" where
  "search_result r =
     (case r of
        Inl (e, st) \<Rightarrow> Inl e
      | Inr st \<Rightarrow> Inr (smooth_max st, optimal_ks st, snr_max st))"

subsection \<open>The search as the specification words it\<close>

text \<open>
  The specification describes the search as a scan that tracks the running maximum score
  together with its scale and its smoothed field, starting from score 0 and scale 0. The
  field that belongs to the starting scale 0 (no smoothing) is the raw estimate itself.
  The scales are the integers of the list, the collaborators are the same two
  parameters.
\<close>

fun tracked_scan ::
  "(rfield \<Rightarrow> real \<Rightarrow> rfield) \<Rightarrow> (rfield \<Rightarrow> rfield \<Rightarrow> 'e + pyfloat) \<Rightarrow>
   rfield \<Rightarrow> rfield \<Rightarrow> nat list \<Rightarrow> real \<times> rfield \<times> pyfloat \<Rightarrow>
   'e + (real \<times> rfield \<times> pyfloat)" where
  "tracked_scan blur scorer raw_estimate ground_truth [] best = Inr best"
| "tracked_scan blur scorer raw_estimate ground_truth (i # rest) (best_scale, best_field, best_score) =
     (let smoothed = blur raw_estimate (real i)
      in case scorer ground_truth smoothed of
           Inl e \<Rightarrow> Inl e
         | Inr score \<Rightarrow>
             tracked_scan blur scorer raw_estimate ground_truth rest
               (if float_gt score best_score then (real i, smoothed, score)
                else (best_scale, best_field, best_score)))"

definition tracked_search ::
  "(rfield \<Rightarrow> real \<Rightarrow> rfield) \<Rightarrow> (rfield \<Rightarrow> rfield \<Rightarrow> 'e + pyfloat) \<Rightarrow>
   rfield \<Rightarrow> rfield \<Rightarrow> int \<Rightarrow> 'e + (real \<times> rfield \<times> pyfloat)" where
  "tracked_search blur scorer raw_estimate ground_truth max_scale_steps =
     tracked_scan blur scorer raw_estimate ground_truth [1..<Suc (nat max_scale_steps)]
       (0, raw_estimate, Fin 0)"

subsection \<open>Auxiliary functions\<close>

text \<open>
  The running best (score, scale) as a function of the scored candidates, in scan order:
  a candidate replaces the best only when its score is strictly greater.
\<close>

fun best_so_far :: "pyfloat \<times> real \<Rightarrow> (real \<times> pyfloat) list \<Rightarrow> pyfloat \<times> real" where
  "best_so_far b [] = b"
| "best_so_far b ((sigma, v) # cs) =
     best_so_far (if float_gt v (fst b) then (v, sigma) else b) cs"

text \<open>
  The calls a scan over the scales \<open>js\<close> makes when no scorer call raises: for each scale
  the filter on the real part of \<open>ks\<close>, then the scorer on the real part of
  \<open>kappa_true\<close> and the filtered field.
\<close>

definition scan_calls :: "(rfield \<Rightarrow> real \<Rightarrow> rfield) \<Rightarrow> notebook \<Rightarrow> nat list \<Rightarrow> call list" where
  "scan_calls gf st js =
     concat (map (\<lambda>k. [Gaussian_filter (np_real (ks st)) (real k),
                         Snr (np_real (kappa_true st)) (gf (np_real (ks st)) (real k))]) js)"

text \<open>The variables as the cell leaves them, whether it finished or raised.\<close>

definition final_state :: "('e \<times> notebook) + notebook \<Rightarrow> notebook" where
  "final_state r = (case r of Inl (e, st) \<Rightarrow> st | Inr st \<Rightarrow> st)"

subsection \<open>Sample collaborators and inputs\<close>

text \<open>
  Concrete stand-ins for the two collaborators, to run the cell on concrete inputs. The
  filter divides every pixel by \<open>1 + sigma\<close>, so it is the identity at \<open>sigma = 0\<close>. The
  scorer raises \<open>ValueError\<close> when the two shapes differ, as an elementwise NumPy
  operation on arrays that cannot be broadcast does, and otherwise returns 1 minus the
  sum of the absolute pixel differences.
\<close>

definition shrink_filter :: "rfield \<Rightarrow> real \<Rightarrow> rfield" where
  "shrink_filter f sigma = map (map (\<lambda>x. x / (1 + sigma))) f"

definition shape :: "rfield \<Rightarrow> nat \<times> nat" where
  "shape f = (length f, case f of [] \<Rightarrow> 0 | r # _ \<Rightarrow> length r)"

datatype py_error = ValueError

definition l1_snr :: "rfield \<Rightarrow> rfield \<Rightarrow> py_error + pyfloat" where
  "l1_snr truth cand =
     (if shape truth \<noteq> shape cand then Inl ValueError
      else Inr (Fin (1 - sum_list (map2 (\<lambda>r s. sum_list (map2 (\<lambda>x y. \<bar>x - y\<bar>) r s)) truth cand))))"

text \<open>
  A notebook whose two fields have the single pixels \<open>raw\<close> and \<open>truth\<close>; the variables the
  cell overwrites hold stale values.
\<close>

definition pixel :: "complex \<Rightarrow> complex \<Rightarrow> notebook" where
  "pixel raw truth =
     \<lparr>ks = [[raw]], kappa_true = [[truth]], snr_max = NaN, smooth_max = 7,
      smoothed_ks = None, snr_iter = None, optimal_ks = None, calls = []\<rparr>"

text \<open>A notebook with a 4 by 4 estimate and an 8 by 8 ground truth, all pixels zero.\<close>

definition zeros :: "nat \<Rightarrow> cfield" where
  "zeros n = replicate n (replicate n 0)"

definition mismatched :: notebook where
  "mismatched =
     \<lparr>ks = zeros 4, kappa_true = zeros 8, snr_max = Fin 0, smooth_max = 0,
      smoothed_ks = None, snr_iter = None, optimal_ks = None, calls = []\<rparr>"

section \<open>Properties of the comparison\<close>

lemma float_gt_irrefl: "\<not> float_gt x x"
  by (cases x) simp_all

lemma float_gt_trans: "float_gt x y \<Longrightarrow> float_gt y z \<Longrightarrow> float_gt x z"
  by (cases x; cases y; cases z) simp_all

lemma float_gt_asym: "float_gt x y \<Longrightarrow> \<not> float_gt y x"
  by (cases x; cases y) simp_all

lemma float_gt_not_NaN: "float_gt x y \<Longrightarrow> x \<noteq> NaN \<and> y \<noteq> NaN"
  by (cases x; cases y) simp_all

lemma float_trichotomy: "x \<noteq> NaN \<Longrightarrow> y \<noteq> NaN \<Longrightarrow> float_gt x y \<or> x = y \<or> float_gt y x"
  by (cases x; cases y) auto

lemma float_gt_lower: "float_gt v r \<Longrightarrow> \<not> float_gt b r \<Longrightarrow> b \<noteq> NaN \<Longrightarrow> float_gt v b"
  by (cases v; cases r; cases b) auto

section \<open>Properties of the running best\<close>

lemma best_so_far_append:
  "best_so_far b (xs @ ys) = best_so_far (best_so_far b xs) ys"
  by (induction xs arbitrary: b) auto

lemma best_so_far_keep:
  "\<forall>c\<in>set cs. \<not> float_gt (snd c) (fst b) \<Longrightarrow> best_so_far b cs = b"
  by (induction cs arbitrary: b) auto

lemma best_so_far_cases:
  "best_so_far b cs = b \<or>
   (\<exists>c\<in>set cs. best_so_far b cs = (snd c, fst c) \<and> float_gt (snd c) (fst b))"
proof (induction cs arbitrary: b)
  case Nil
  show ?case by simp
next
  case (Cons c cs)
  obtain sigma v where c: "c = (sigma, v)" by (cases c)
  let ?b = "if float_gt v (fst b) then (v, sigma) else b"
  from Cons.IH [of ?b] show ?case
  proof
    assume "best_so_far ?b cs = ?b"
    then show ?thesis by (auto simp: c)
  next
    assume "\<exists>d\<in>set cs. best_so_far ?b cs = (snd d, fst d) \<and> float_gt (snd d) (fst ?b)"
    then obtain d where d: "d \<in> set cs" "best_so_far ?b cs = (snd d, fst d)"
      "float_gt (snd d) (fst ?b)" by blast
    have "float_gt (snd d) (fst b)"
      using d(3) by (auto split: if_splits dest: float_gt_trans)
    with d show ?thesis by (auto simp: c)
  qed
qed

lemma best_so_far_upper:
  assumes "fst b \<noteq> NaN"
  shows "fst (best_so_far b cs) \<noteq> NaN \<and> \<not> float_gt (fst b) (fst (best_so_far b cs))
     \<and> (\<forall>c\<in>set cs. \<not> float_gt (snd c) (fst (best_so_far b cs)))"
  using assms
proof (induction cs arbitrary: b)
  case Nil
  then show ?case by (simp add: float_gt_irrefl)
next
  case (Cons c cs)
  obtain sigma v where c: "c = (sigma, v)" by (cases c)
  let ?b = "if float_gt v (fst b) then (v, sigma) else b"
  let ?r = "fst (best_so_far ?b cs)"
  have nb: "fst ?b \<noteq> NaN"
    using Cons.prems by (auto dest: float_gt_not_NaN)
  from Cons.IH [OF nb] have ih: "?r \<noteq> NaN" "\<not> float_gt (fst ?b) ?r"
    "\<forall>d\<in>set cs. \<not> float_gt (snd d) ?r" by blast+
  have 1: "\<not> float_gt (fst b) ?r"
    using ih(2) by (auto split: if_splits dest: float_gt_trans)
  have 2: "\<not> float_gt v ?r"
    using ih(2) Cons.prems by (auto split: if_splits dest: float_gt_lower)
  show ?case using ih 1 2 by (simp add: c)
qed

lemma best_so_far_first:
  assumes "float_gt m (fst b)"
    and "\<forall>c\<in>set pre. \<not> float_gt (snd c) m \<and> snd c \<noteq> m"
    and "\<forall>c\<in>set post. \<not> float_gt (snd c) m"
  shows "best_so_far b (pre @ (sigma, m) # post) = (m, sigma)"
proof -
  have m: "m \<noteq> NaN" using assms(1) by (auto dest: float_gt_not_NaN)
  have "float_gt m (fst (best_so_far b pre))"
    using best_so_far_cases [of b pre]
  proof
    assume "best_so_far b pre = b"
    then show ?thesis using assms(1) by simp
  next
    assume "\<exists>c\<in>set pre. best_so_far b pre = (snd c, fst c) \<and> float_gt (snd c) (fst b)"
    then obtain c where c: "c \<in> set pre" "best_so_far b pre = (snd c, fst c)"
      "float_gt (snd c) (fst b)" by blast
    have "snd c \<noteq> NaN" using c(3) by (auto dest: float_gt_not_NaN)
    with m assms(2) c(1) have "float_gt m (snd c)"
      using float_trichotomy [of m "snd c"] by auto
    then show ?thesis by (simp add: c(2))
  qed
  then have "best_so_far b (pre @ (sigma, m) # post) = best_so_far (m, sigma) post"
    by (simp add: best_so_far_append)
  also have "\<dots> = (m, sigma)"
    using assms(3) by (intro best_so_far_keep) simp
  finally show ?thesis .
qed

lemma best_so_far_scale:
  "snd (best_so_far b cs) = snd b \<or> snd (best_so_far b cs) \<in> fst ` set cs"
  using best_so_far_cases [of b cs] by force

lemma best_so_far_max:
  assumes "fst b \<noteq> NaN" and "c \<in> set cs" and "float_gt (snd c) (fst b)"
    and "\<forall>d\<in>set cs. \<not> float_gt (snd d) (snd c)"
  shows "fst (best_so_far b cs) = snd c"
proof -
  let ?r = "best_so_far b cs"
  from best_so_far_upper [OF assms(1), of cs] assms(2)
  have r: "fst ?r \<noteq> NaN" "\<not> float_gt (fst b) (fst ?r)" "\<not> float_gt (snd c) (fst ?r)"
    by blast+
  have c: "snd c \<noteq> NaN" using assms(3) by (auto dest: float_gt_not_NaN)
  from best_so_far_cases [of b cs] have "\<not> float_gt (fst ?r) (snd c)"
  proof
    assume "?r = b"
    with assms(3) show ?thesis by (auto dest: float_gt_asym)
  next
    assume "\<exists>d\<in>set cs. ?r = (snd d, fst d) \<and> float_gt (snd d) (fst b)"
    with assms(4) show ?thesis by auto
  qed
  with r(1,3) c float_trichotomy [of "fst ?r" "snd c"] show ?thesis by blast
qed

lemma best_so_far_scale_bounds:
  assumes "0 \<le> snd b" and "snd b \<le> real i"
  shows "0 \<le> snd (best_so_far b (map (\<lambda>j. (real (j + 1), sc (j + 1))) [0..<i]))
    \<and> snd (best_so_far b (map (\<lambda>j. (real (j + 1), sc (j + 1))) [0..<i])) \<le> real i"
  using best_so_far_scale [of b "map (\<lambda>j. (real (j + 1), sc (j + 1))) [0..<i]"] assms
  by (auto simp del: of_nat_add of_nat_Suc)

section \<open>Properties of the scan\<close>

lemma upt_split:
  assumes "1 \<le> k" and "k \<le> N"
  shows "[1..<Suc N] = [1..<k] @ k # [Suc k..<Suc N]"
proof -
  from assms have "[1..<Suc N] = [1..<k] @ [k..<Suc N]"
    using upt_add_eq_append [of 1 k "Suc N - k"] by simp
  also from assms have "[k..<Suc N] = k # [Suc k..<Suc N]"
    by (simp add: upt_conv_Cons)
  finally show ?thesis .
qed

lemma set_scales:
  "set (map f [1..<Suc N]) = f ` {1..N}"
  by (simp del: upt_Suc add: atLeastLessThanSuc_atLeastAtMost)

lemma scan_append:
  "scan gf snr (xs @ ys) st =
     (case scan gf snr xs st of Inl err \<Rightarrow> Inl err | Inr s \<Rightarrow> scan gf snr ys s)"
  by (induction xs arbitrary: st) (auto split: sum.splits)

lemma scan_step_Inr:
  assumes "snr (np_real (kappa_true st)) (gf (np_real (ks st)) (real (i + 1))) = Inr v"
  shows "scan_step gf snr i st =
     Inr (st\<lparr>smoothed_ks := Some (gf (np_real (ks st)) (real (i + 1))),
             calls := calls st @ [Gaussian_filter (np_real (ks st)) (real (i + 1)),
                                  Snr (np_real (kappa_true st)) (gf (np_real (ks st)) (real (i + 1)))],
             snr_iter := Some v,
             snr_max := fst (best_so_far (snr_max st, smooth_max st) [(real (i + 1), v)]),
             smooth_max := snd (best_so_far (snr_max st, smooth_max st) [(real (i + 1), v)])\<rparr>)"
  using assms by (simp add: scan_step_def np_real_r_def Let_def)

lemma scan_step_Inl:
  assumes "snr (np_real (kappa_true st)) (gf (np_real (ks st)) (real (i + 1))) = Inl e"
  shows "scan_step gf snr i st =
     Inl (e, st\<lparr>smoothed_ks := Some (gf (np_real (ks st)) (real (i + 1))),
             calls := calls st @ [Gaussian_filter (np_real (ks st)) (real (i + 1)),
                                  Snr (np_real (kappa_true st)) (gf (np_real (ks st)) (real (i + 1)))]\<rparr>)"
  using assms by (simp add: scan_step_def np_real_r_def Let_def)

lemma scan_returns:
  assumes "\<forall>i\<in>set js. snr (np_real (kappa_true st)) (gf (np_real (ks st)) (real (i + 1))) = Inr (sc (i + 1))"
  shows "\<exists>st'. scan gf snr js st = Inr st' \<and> ks st' = ks st \<and> kappa_true st' = kappa_true st
      \<and> optimal_ks st' = optimal_ks st
      \<and> (snr_max st', smooth_max st') =
          best_so_far (snr_max st, smooth_max st) (map (\<lambda>i. (real (i + 1), sc (i + 1))) js)
      \<and> calls st' = calls st @ scan_calls gf st (map Suc js)"
  using assms
proof (induction js arbitrary: st)
  case Nil
  then show ?case by (simp add: scan_calls_def)
next
  case (Cons i js)
  let ?st1 = "st\<lparr>smoothed_ks := Some (gf (np_real (ks st)) (real (i + 1))),
             calls := calls st @ [Gaussian_filter (np_real (ks st)) (real (i + 1)),
                                  Snr (np_real (kappa_true st)) (gf (np_real (ks st)) (real (i + 1)))],
             snr_iter := Some (sc (i + 1)),
             snr_max := fst (best_so_far (snr_max st, smooth_max st) [(real (i + 1), sc (i + 1))]),
             smooth_max := snd (best_so_far (snr_max st, smooth_max st) [(real (i + 1), sc (i + 1))])\<rparr>"
  from Cons.prems have s: "scan_step gf snr i st = Inr ?st1"
    by (intro scan_step_Inr) simp
  have "\<forall>j\<in>set js. snr (np_real (kappa_true ?st1)) (gf (np_real (ks ?st1)) (real (j + 1))) = Inr (sc (j + 1))"
    using Cons.prems by simp
  from Cons.IH [OF this] obtain st' where
    st': "scan gf snr js ?st1 = Inr st'" "ks st' = ks ?st1" "kappa_true st' = kappa_true ?st1"
      "optimal_ks st' = optimal_ks ?st1"
      "(snr_max st', smooth_max st') =
          best_so_far (snr_max ?st1, smooth_max ?st1) (map (\<lambda>i. (real (i + 1), sc (i + 1))) js)"
      "calls st' = calls ?st1 @ scan_calls gf ?st1 (map Suc js)"
    by blast
  show ?case
    using s st' by (simp add: scan_calls_def)
qed

lemma scan_calls_same:
  "ks a = ks b \<Longrightarrow> kappa_true a = kappa_true b \<Longrightarrow> scan_calls gf a js = scan_calls gf b js"
  by (simp add: scan_calls_def)

lemma gridsearch_returns:
  assumes "\<forall>k\<in>{1..nat n}.
     snr (np_real (kappa_true st)) (gf (np_real (ks st)) (real k)) = Inr (sc k)"
  shows "\<exists>st'. ks_gridsearch gf snr n st = Inr st' \<and> ks st' = ks st
      \<and> kappa_true st' = kappa_true st
      \<and> (snr_max st', smooth_max st') =
          best_so_far (Fin 0, 0) (map (\<lambda>k. (real k, sc k)) [1..<Suc (nat n)])
      \<and> optimal_ks st' = Some (gf (np_real (ks st)) (smooth_max st'))
      \<and> calls st' = calls st @ scan_calls gf st [1..<Suc (nat n)]
           @ [Gaussian_filter (np_real (ks st)) (smooth_max st')]"
proof -
  let ?st0 = "st\<lparr>snr_max := Fin 0, smooth_max := 0\<rparr>"
  have "\<forall>i\<in>set [0..<nat n].
     snr (np_real (kappa_true ?st0)) (gf (np_real (ks ?st0)) (real (i + 1))) = Inr (sc (i + 1))"
  proof
    fix i assume "i \<in> set [0..<nat n]"
    then have "i + 1 \<in> {1..nat n}" by simp
    with assms show "snr (np_real (kappa_true ?st0)) (gf (np_real (ks ?st0)) (real (i + 1)))
        = Inr (sc (i + 1))"
      by (simp del: of_nat_add of_nat_Suc)
  qed
  from scan_returns [where sc = sc and js = "[0..<nat n]" and st = ?st0 and gf = gf and snr = snr, OF this]
  obtain s where
    s: "scan gf snr [0..<nat n] ?st0 = Inr s" "ks s = ks ?st0" "kappa_true s = kappa_true ?st0"
      "(snr_max s, smooth_max s) =
          best_so_far (snr_max ?st0, smooth_max ?st0) (map (\<lambda>i. (real (i + 1), sc (i + 1))) [0..<nat n])"
      "calls s = calls ?st0 @ scan_calls gf ?st0 (map Suc [0..<nat n])"
    by blast
  have m: "map (\<lambda>i. (real (i + 1), sc (i + 1))) [0..<nat n]
     = map (\<lambda>k. (real k, sc k)) [1..<Suc (nat n)]"
    by (simp add: map_Suc_upt [symmetric] comp_def del: upt_Suc)
  have c: "scan_calls gf ?st0 (map Suc [0..<nat n]) = scan_calls gf st [1..<Suc (nat n)]"
    by (simp add: map_Suc_upt scan_calls_def del: upt_Suc)
  show ?thesis
    using s unfolding m c by (simp add: ks_gridsearch_def py_range_def)
qed

lemma scan_step_frame:
  "ks (final_state (scan_step gf snr i st)) = ks st \<and>
   kappa_true (final_state (scan_step gf snr i st)) = kappa_true st \<and>
   optimal_ks (final_state (scan_step gf snr i st)) = optimal_ks st"
  by (simp add: scan_step_def final_state_def Let_def split: sum.splits)

lemma scan_frame:
  "ks (final_state (scan gf snr js st)) = ks st \<and>
   kappa_true (final_state (scan gf snr js st)) = kappa_true st \<and>
   optimal_ks (final_state (scan gf snr js st)) = optimal_ks st"
proof (induction js arbitrary: st)
  case Nil
  show ?case by (simp add: final_state_def)
next
  case (Cons i js)
  show ?case
  proof (cases "scan_step gf snr i st")
    case (Inl err)
    with scan_step_frame [of gf snr i st] show ?thesis by simp
  next
    case (Inr s)
    with scan_step_frame [of gf snr i st] Cons.IH [of s] show ?thesis
      by (simp add: final_state_def)
  qed
qed

lemma gridsearch_frame:
  "ks (final_state (ks_gridsearch gf snr n st)) = ks st \<and>
   kappa_true (final_state (ks_gridsearch gf snr n st)) = kappa_true st"
proof -
  let ?st0 = "st\<lparr>snr_max := Fin 0, smooth_max := 0\<rparr>"
  from scan_frame [of gf snr "py_range n" ?st0] show ?thesis
    by (cases "scan gf snr (py_range n) ?st0")
      (auto simp: ks_gridsearch_def final_state_def)
qed

lemma scan_fails:
  assumes "scan gf snr js st = Inl (e, st')"
  shows "\<exists>m<length js.
      snr (np_real (kappa_true st)) (gf (np_real (ks st)) (real (js ! m + 1))) = Inl e
    \<and> calls st' = calls st @ scan_calls gf st (map Suc (take (Suc m) js))"
  using assms
proof (induction js arbitrary: st)
  case Nil
  then show ?case by simp
next
  case (Cons i js)
  show ?case
  proof (cases "snr (np_real (kappa_true st)) (gf (np_real (ks st)) (real (i + 1)))")
    case (Inl e0)
    from scan_step_Inl [where gf = gf and snr = snr, OF Inl] Cons.prems
    have "e0 = e" and "calls st' = calls st @ scan_calls gf st [Suc i]"
      by (auto simp: scan_calls_def)
    with Inl have "snr (np_real (kappa_true st)) (gf (np_real (ks st)) (real ((i # js) ! 0 + 1))) = Inl e
      \<and> calls st' = calls st @ scan_calls gf st (map Suc (take (Suc 0) (i # js)))"
      by simp
    then show ?thesis by blast
  next
    case (Inr v)
    let ?s = "st\<lparr>smoothed_ks := Some (gf (np_real (ks st)) (real (i + 1))),
             calls := calls st @ [Gaussian_filter (np_real (ks st)) (real (i + 1)),
                                  Snr (np_real (kappa_true st)) (gf (np_real (ks st)) (real (i + 1)))],
             snr_iter := Some v,
             snr_max := fst (best_so_far (snr_max st, smooth_max st) [(real (i + 1), v)]),
             smooth_max := snd (best_so_far (snr_max st, smooth_max st) [(real (i + 1), v)])\<rparr>"
    from scan_step_Inr [where gf = gf and snr = snr, OF Inr] Cons.prems have "scan gf snr js ?s = Inl (e, st')"
      by simp
    from Cons.IH [OF this] obtain m where m: "m < length js"
      "snr (np_real (kappa_true ?s)) (gf (np_real (ks ?s)) (real (js ! m + 1))) = Inl e"
      "calls st' = calls ?s @ scan_calls gf ?s (map Suc (take (Suc m) js))"
      by blast
    have "Suc m < length (i # js)" using m(1) by simp
    moreover have "snr (np_real (kappa_true st)) (gf (np_real (ks st)) (real ((i # js) ! Suc m + 1))) = Inl e"
      using m(2) by simp
    moreover have "calls st' = calls st @ scan_calls gf st (map Suc (take (Suc (Suc m)) (i # js)))"
      using m(3) by (simp add: scan_calls_def)
    ultimately show ?thesis by blast
  qed
qed

lemma gridsearch_fails:
  assumes "ks_gridsearch gf snr n st = Inl (e, st')"
  shows "optimal_ks st' = optimal_ks st \<and>
    (\<exists>k. 1 \<le> k \<and> k \<le> nat n
      \<and> snr (np_real (kappa_true st)) (gf (np_real (ks st)) (real k)) = Inl e
      \<and> calls st' = calls st @ scan_calls gf st [1..<Suc k])"
proof -
  let ?st0 = "st\<lparr>snr_max := Fin 0, smooth_max := 0\<rparr>"
  from assms have f: "scan gf snr [0..<nat n] ?st0 = Inl (e, st')"
    by (auto simp: ks_gridsearch_def py_range_def split: sum.splits)
  from scan_frame [of gf snr "[0..<nat n]" ?st0] f
  have o: "optimal_ks st' = optimal_ks st" by (simp add: final_state_def)
  from scan_fails [OF f] obtain m where m: "m < nat n"
    "snr (np_real (kappa_true ?st0)) (gf (np_real (ks ?st0)) (real ([0..<nat n] ! m + 1))) = Inl e"
    "calls st' = calls ?st0 @ scan_calls gf ?st0 (map Suc (take (Suc m) [0..<nat n]))"
    by auto
  have t: "take (Suc m) [0..<nat n] = [0..<Suc m]"
    using m(1) take_upt [of 0 "Suc m" "nat n"] by simp
  have l: "map Suc (take (Suc m) [0..<nat n]) = [1..<Suc (Suc m)]"
    unfolding t by (simp add: map_Suc_upt del: upt_Suc)
  have c: "calls st' = calls st @ scan_calls gf st [1..<Suc (Suc m)]"
    using m(3) unfolding l by (simp add: scan_calls_same [of ?st0 st])
  have "snr (np_real (kappa_true st)) (gf (np_real (ks st)) (real (Suc m))) = Inl e"
    using m(1,2) by (simp add: add.commute)
  with c m(1) have "1 \<le> Suc m \<and> Suc m \<le> nat n
      \<and> snr (np_real (kappa_true st)) (gf (np_real (ks st)) (real (Suc m))) = Inl e
      \<and> calls st' = calls st @ scan_calls gf st [1..<Suc (Suc m)]"
    by simp
  with o show ?thesis by blast
qed

lemma gridsearch_fails_first:
  assumes "1 \<le> n"
    and "snr (np_real (kappa_true st)) (gf (np_real (ks st)) 1) = Inl e"
  shows "ks_gridsearch gf snr n st =
    Inl (e, st\<lparr>snr_max := Fin 0, smooth_max := 0,
               smoothed_ks := Some (gf (np_real (ks st)) 1),
               calls := calls st @ [Gaussian_filter (np_real (ks st)) 1,
                 Snr (np_real (kappa_true st)) (gf (np_real (ks st)) 1)]\<rparr>)"
proof -
  let ?st0 = "st\<lparr>snr_max := Fin 0, smooth_max := 0\<rparr>"
  from assms(1) have r: "py_range n = 0 # [1..<nat n]"
    by (simp add: py_range_def upt_conv_Cons)
  have "snr (np_real (kappa_true ?st0)) (gf (np_real (ks ?st0)) (real (0 + 1))) = Inl e"
    using assms(2) by simp
  from scan_step_Inl [where gf = gf and snr = snr, OF this] show ?thesis
    by (simp add: ks_gridsearch_def r)
qed

lemma scan_cong:
  assumes "np_real (ks a) = np_real (ks b)"
    and "np_real (kappa_true a) = np_real (kappa_true b)"
    and "snr_max a = snr_max b" and "smooth_max a = smooth_max b"
  shows "(\<exists>e sa sb. scan gf snr js a = Inl (e, sa) \<and> scan gf snr js b = Inl (e, sb))
    \<or> (\<exists>sa sb. scan gf snr js a = Inr sa \<and> scan gf snr js b = Inr sb
         \<and> snr_max sa = snr_max sb \<and> smooth_max sa = smooth_max sb)"
  using assms
proof (induction js arbitrary: a b)
  case Nil
  then show ?case by simp
next
  case (Cons i js)
  show ?case
  proof (cases "snr (np_real (kappa_true a)) (gf (np_real (ks a)) (real (i + 1)))")
    case (Inl e)
    then have "snr (np_real (kappa_true b)) (gf (np_real (ks b)) (real (i + 1))) = Inl e"
      using Cons.prems by simp
    from scan_step_Inl [where gf = gf and snr = snr, OF Inl] scan_step_Inl [where gf = gf and snr = snr, OF this] show ?thesis by simp
  next
    case (Inr v)
    then have Inr': "snr (np_real (kappa_true b)) (gf (np_real (ks b)) (real (i + 1))) = Inr v"
      using Cons.prems by simp
    obtain a' where a': "scan_step gf snr i a = Inr a'" "ks a' = ks a"
      "kappa_true a' = kappa_true a"
      "snr_max a' = fst (best_so_far (snr_max a, smooth_max a) [(real (i + 1), v)])"
      "smooth_max a' = snd (best_so_far (snr_max a, smooth_max a) [(real (i + 1), v)])"
      using scan_step_Inr [where gf = gf and snr = snr, OF Inr] by simp
    obtain b' where b': "scan_step gf snr i b = Inr b'" "ks b' = ks b"
      "kappa_true b' = kappa_true b"
      "snr_max b' = fst (best_so_far (snr_max b, smooth_max b) [(real (i + 1), v)])"
      "smooth_max b' = snd (best_so_far (snr_max b, smooth_max b) [(real (i + 1), v)])"
      using scan_step_Inr [where gf = gf and snr = snr, OF Inr'] by simp
    have "np_real (ks a') = np_real (ks b')" "np_real (kappa_true a') = np_real (kappa_true b')"
      "snr_max a' = snr_max b'" "smooth_max a' = smooth_max b'"
      using a' b' Cons.prems by simp_all
    from Cons.IH [OF this] show ?thesis
      by (simp add: a'(1) b'(1))
  qed
qed

lemma search_result_cong:
  assumes "np_real (ks a) = np_real (ks b)"
    and "np_real (kappa_true a) = np_real (kappa_true b)"
  shows "search_result (ks_gridsearch gf snr n a) = search_result (ks_gridsearch gf snr n b)"
proof -
  let ?a = "a\<lparr>snr_max := Fin 0, smooth_max := 0\<rparr>"
  let ?b = "b\<lparr>snr_max := Fin 0, smooth_max := 0\<rparr>"
  have "np_real (ks ?a) = np_real (ks ?b)" "np_real (kappa_true ?a) = np_real (kappa_true ?b)"
    "snr_max ?a = snr_max ?b" "smooth_max ?a = smooth_max ?b"
    using assms by simp_all
  from scan_cong [OF this, of gf snr "py_range n"] show ?thesis
  proof
    assume "\<exists>e sa sb. scan gf snr (py_range n) ?a = Inl (e, sa)
       \<and> scan gf snr (py_range n) ?b = Inl (e, sb)"
    then show ?thesis by (auto simp: ks_gridsearch_def search_result_def)
  next
    assume "\<exists>sa sb. scan gf snr (py_range n) ?a = Inr sa \<and> scan gf snr (py_range n) ?b = Inr sb
         \<and> snr_max sa = snr_max sb \<and> smooth_max sa = smooth_max sb"
    then obtain sa sb where s: "scan gf snr (py_range n) ?a = Inr sa"
      "scan gf snr (py_range n) ?b = Inr sb" "snr_max sa = snr_max sb"
      "smooth_max sa = smooth_max sb" by blast
    from scan_frame [of gf snr "py_range n" ?a] s(1) have "ks sa = ks a"
      by (simp add: final_state_def)
    moreover from scan_frame [of gf snr "py_range n" ?b] s(2) have "ks sb = ks b"
      by (simp add: final_state_def)
    ultimately show ?thesis
      using s assms by (simp add: ks_gridsearch_def search_result_def)
  qed
qed

lemma scan_tracked:
  assumes "bf = gf (np_real (ks st)) (smooth_max st)"
  shows "map_sum fst (\<lambda>s. (smooth_max s, gf (np_real (ks st)) (smooth_max s), snr_max s))
           (scan gf snr js st)
    = tracked_scan gf snr (np_real (ks st)) (np_real (kappa_true st)) (map Suc js)
        (smooth_max st, bf, snr_max st)"
  using assms
proof (induction js arbitrary: st bf)
  case Nil
  then show ?case by simp
next
  case (Cons i js)
  show ?case
  proof (cases "snr (np_real (kappa_true st)) (gf (np_real (ks st)) (real (i + 1)))")
    case (Inl e)
    from scan_step_Inl [where gf = gf and snr = snr, OF Inl] Inl show ?thesis
      by (simp add: add.commute)
  next
    case (Inr v)
    let ?s = "st\<lparr>smoothed_ks := Some (gf (np_real (ks st)) (real (i + 1))),
             calls := calls st @ [Gaussian_filter (np_real (ks st)) (real (i + 1)),
                                  Snr (np_real (kappa_true st)) (gf (np_real (ks st)) (real (i + 1)))],
             snr_iter := Some v,
             snr_max := fst (best_so_far (snr_max st, smooth_max st) [(real (i + 1), v)]),
             smooth_max := snd (best_so_far (snr_max st, smooth_max st) [(real (i + 1), v)])\<rparr>"
    let ?bf = "if float_gt v (snr_max st) then gf (np_real (ks st)) (real (i + 1)) else bf"
    have step: "scan gf snr (i # js) st = scan gf snr js ?s"
      using scan_step_Inr [where gf = gf and snr = snr, OF Inr] by simp
    have "?bf = gf (np_real (ks ?s)) (smooth_max ?s)"
      using Cons.prems by simp
    from Cons.IH [OF this]
    have ih: "map_sum fst (\<lambda>s. (smooth_max s, gf (np_real (ks st)) (smooth_max s), snr_max s))
           (scan gf snr js ?s)
      = tracked_scan gf snr (np_real (ks st)) (np_real (kappa_true st)) (map Suc js)
        (smooth_max ?s, ?bf, snr_max ?s)"
      by simp
    have "tracked_scan gf snr (np_real (ks st)) (np_real (kappa_true st)) (map Suc (i # js))
        (smooth_max st, bf, snr_max st)
      = tracked_scan gf snr (np_real (ks st)) (np_real (kappa_true st)) (map Suc js)
        (smooth_max ?s, ?bf, snr_max ?s)"
      using Inr by (simp add: add.commute)
    with ih step show ?thesis by simp
  qed
qed

lemma gridsearch_tracked:
  assumes "gf (np_real (ks st)) 0 = np_real (ks st)"
  shows "search_result (ks_gridsearch gf snr n st) =
     (case tracked_search gf snr (np_real (ks st)) (np_real (kappa_true st)) n of
        Inl e \<Rightarrow> Inl e
      | Inr (s, f, m) \<Rightarrow> Inr (s, Some f, m))"
proof -
  let ?st0 = "st\<lparr>snr_max := Fin 0, smooth_max := 0\<rparr>"
  have "np_real (ks st) = gf (np_real (ks ?st0)) (smooth_max ?st0)"
    using assms by simp
  from scan_tracked [where gf = gf and snr = snr and js = "[0..<nat n]" and st = ?st0, OF this]
  have t: "tracked_search gf snr (np_real (ks st)) (np_real (kappa_true st)) n =
     map_sum fst (\<lambda>s. (smooth_max s, gf (np_real (ks st)) (smooth_max s), snr_max s))
       (scan gf snr [0..<nat n] ?st0)"
    by (simp add: tracked_search_def map_Suc_upt del: upt_Suc)
  from scan_frame [of gf snr "[0..<nat n]" ?st0] show ?thesis
    unfolding t
    by (cases "scan gf snr [0..<nat n] ?st0")
      (auto simp: ks_gridsearch_def py_range_def search_result_def final_state_def)
qed

section \<open>Evaluation on concrete inputs\<close>

lemmas run_defs = ks_gridsearch_def py_range_def scan_step_def Let_def np_real_def
  np_real_r_def shrink_filter_def l1_snr_def shape_def pixel_def search_result_def upt_rec

lemma steps3: "k \<in> {1..nat 3} \<Longrightarrow> k = 1 \<or> k = 2 \<or> k = 3"
  by auto

lemma steps2: "k \<in> {1..nat 2} \<Longrightarrow> k = 1 \<or> k = 2"
  by auto

lemmas input_defs = l1_snr_def shape_def np_real_def shrink_filter_def pixel_def

section \<open>The claims\<close>

text \<open>
  Throughout, \<open>gf\<close> is the filter and \<open>snr\<close> the scorer. The raw estimate is
  \<open>np_real (ks st)\<close>, the ground truth \<open>np_real (kappa_true st)\<close>, and \<open>sc k\<close> names the
  score the scorer returns for the candidate of scale \<open>k\<close>. A hypothesis of the form
  \<open>\<forall>k\<in>{1..nat n}. snr ... = Inr (sc k)\<close> says that the scorer returns a score for every
  candidate of the scan, which is what a valid input is.
\<close>

subsection \<open>C1: the scan evaluates the scales 1 to the step count and reports the maximum\<close>

text \<open>
  Claim C1. For every step count \<open>n \<ge> 1\<close> on which the scorer returns, the gridsearch
  returns, and the calls it has made are, for each integer scale \<open>k\<close> from 1 to \<open>n\<close> in
  this order, the filter on the raw estimate at scale \<open>k\<close> followed by the scorer on the
  ground truth and that filtered field, and after the scan one more filter call at the
  best scale. Whenever a candidate score \<open>m\<close> that no candidate score exceeds is greater
  than the initial score 0, the reported best score \<open>snr_max\<close> is \<open>m\<close>. A NaN score never
  exceeds and is never exceeded, so it is passed over.
\<close>

theorem gridsearch_scans_every_scale:
  assumes "1 \<le> n"
    and "\<forall>k\<in>{1..nat n}.
      snr (np_real (kappa_true st)) (gf (np_real (ks st)) (real k)) = Inr (sc k)"
  shows "\<exists>st'. ks_gridsearch gf snr n st = Inr st'
    \<and> calls st' = calls st @ scan_calls gf st [1..<Suc (nat n)]
         @ [Gaussian_filter (np_real (ks st)) (smooth_max st')]
    \<and> (\<forall>m. (\<exists>k\<in>{1..nat n}. sc k = m) \<and> (\<forall>k\<in>{1..nat n}. \<not> float_gt (sc k) m)
           \<and> float_gt m (Fin 0) \<longrightarrow> snr_max st' = m)"
proof -
  let ?cs = "map (\<lambda>k. (real k, sc k)) [1..<Suc (nat n)]"
  from gridsearch_returns [where gf = gf and snr = snr and sc = sc, OF assms(2)]
  obtain st' where st': "ks_gridsearch gf snr n st = Inr st'"
    "(snr_max st', smooth_max st') = best_so_far (Fin 0, 0) ?cs"
    "calls st' = calls st @ scan_calls gf st [1..<Suc (nat n)]
         @ [Gaussian_filter (np_real (ks st)) (smooth_max st')]"
    by blast
  have "snr_max st' = m"
    if m: "\<exists>k\<in>{1..nat n}. sc k = m" "\<forall>k\<in>{1..nat n}. \<not> float_gt (sc k) m"
      "float_gt m (Fin 0)" for m
  proof -
    from m(1) obtain k where k: "k \<in> {1..nat n}" "sc k = m" by blast
    have "fst (best_so_far (Fin 0, 0) ?cs) = snd (real k, sc k)"
    proof (rule best_so_far_max)
      show "fst (Fin 0, 0::real) \<noteq> NaN" by simp
      show "(real k, sc k) \<in> set ?cs" using k(1) unfolding set_scales by blast
      show "float_gt (snd (real k, sc k)) (fst (Fin 0, 0::real))" using m(3) k(2) by simp
      show "\<forall>d\<in>set ?cs. \<not> float_gt (snd d) (snd (real k, sc k))"
        using m(2) k(2) unfolding set_scales by auto
    qed
    with st'(2) [symmetric] k(2) show ?thesis by simp
  qed
  with st'(1,3) show ?thesis by blast
qed

text \<open>
  The theorem at a single pixel with three steps: the candidates score 1, 5/6 and 3/4,
  and the reported score is 1.
\<close>

theorem gridsearch_scans_every_scale_witness:
  "(1::int) \<le> 3 \<and> (\<exists>st'. ks_gridsearch shrink_filter l1_snr 3 (pixel 1 (1/2)) = Inr st'
      \<and> snr_max st' = Fin 1)"
proof -
  let ?sc = "\<lambda>k. Fin (1 - \<bar>1/2 - 1 / (1 + real k)\<bar>)"
  let ?nb = "pixel 1 (1/2)"
  have h1: "(1::int) \<le> 3" by simp
  have h2: "\<forall>k\<in>{1..nat 3}.
      l1_snr (np_real (kappa_true ?nb)) (shrink_filter (np_real (ks ?nb)) (real k)) = Inr (?sc k)"
    by (simp add: input_defs)
  from gridsearch_scans_every_scale
    [where gf = shrink_filter and snr = l1_snr and sc = ?sc and st = ?nb, OF h1 h2]
  obtain st' where st': "ks_gridsearch shrink_filter l1_snr 3 ?nb = Inr st'"
    "\<forall>m. (\<exists>k\<in>{1..nat 3}. ?sc k = m) \<and> (\<forall>k\<in>{1..nat 3}. \<not> float_gt (?sc k) m)
           \<and> float_gt m (Fin 0) \<longrightarrow> snr_max st' = m"
    by blast
  have "\<exists>k\<in>{1..nat 3}. ?sc k = Fin 1"
    by (rule bexI [of _ 1]) simp_all
  moreover have "\<forall>k\<in>{1..nat 3}. \<not> float_gt (?sc k) (Fin 1)"
  proof
    fix k :: nat assume "k \<in> {1..nat 3}"
    then have "k = 1 \<or> k = 2 \<or> k = 3" by (rule steps3)
    then show "\<not> float_gt (?sc k) (Fin 1)" by auto
  qed
  moreover have "float_gt (Fin 1) (Fin 0)" by simp
  ultimately have "snr_max st' = Fin 1" using st'(2) by blast
  with st'(1) h1 show ?thesis by blast
qed

subsection \<open>C2: ties keep the smallest scale\<close>

text \<open>
  Claim C2, amended. If the scorer returns on every candidate, the maximum candidate
  score is strictly greater than the initial score 0, and \<open>k\<close> is the smallest scale that
  attains it, then the gridsearch returns \<open>k\<close> as best scale, with that score. The claim
  as stated leaves out the condition on the initial score: when the maximum is not
  greater than 0 the best scale stays 0, which is no candidate scale at all.
\<close>

theorem gridsearch_smallest_best_scale:
  assumes "\<forall>j\<in>{1..nat n}.
      snr (np_real (kappa_true st)) (gf (np_real (ks st)) (real j)) = Inr (sc j)"
    and "k \<in> {1..nat n}"
    and "float_gt (sc k) (Fin 0)"
    and "\<forall>j\<in>{1..nat n}. \<not> float_gt (sc j) (sc k)"
    and "\<forall>j\<in>{1..<k}. sc j \<noteq> sc k"
  shows "\<exists>st'. ks_gridsearch gf snr n st = Inr st' \<and> smooth_max st' = real k
    \<and> snr_max st' = sc k"
proof -
  let ?f = "\<lambda>j. (real j, sc j)"
  from gridsearch_returns [where gf = gf and snr = snr and sc = sc, OF assms(1)]
  obtain st' where st': "ks_gridsearch gf snr n st = Inr st'"
    "(snr_max st', smooth_max st') = best_so_far (Fin 0, 0) (map ?f [1..<Suc (nat n)])"
    by blast
  from assms(2) have "[1..<Suc (nat n)] = [1..<k] @ k # [Suc k..<Suc (nat n)]"
    by (intro upt_split) simp_all
  then have "map ?f [1..<Suc (nat n)]
      = map ?f [1..<k] @ (real k, sc k) # map ?f [Suc k..<Suc (nat n)]"
    by simp
  moreover have "best_so_far (Fin 0, 0)
      (map ?f [1..<k] @ (real k, sc k) # map ?f [Suc k..<Suc (nat n)]) = (sc k, real k)"
  proof (rule best_so_far_first)
    show "float_gt (sc k) (fst (Fin 0, 0::real))" using assms(3) by simp
    show "\<forall>c\<in>set (map ?f [1..<k]). \<not> float_gt (snd c) (sc k) \<and> snd c \<noteq> sc k"
      using assms(2,4,5) by auto
    show "\<forall>c\<in>set (map ?f [Suc k..<Suc (nat n)]). \<not> float_gt (snd c) (sc k)"
      using assms(2,4) by auto
  qed
  ultimately have "(snr_max st', smooth_max st') = (sc k, real k)"
    using st'(2) by simp
  with st'(1) show ?thesis by simp
qed

text \<open>
  The theorem at a single pixel where the scales 1 and 2 tie at 11/12 and the scale 3
  scores 5/6: the scale 1 is returned.
\<close>

theorem gridsearch_smallest_best_scale_witness:
  "l1_snr [[5/12]] (shrink_filter [[1]] 1) = Inr (Fin (11/12))
   \<and> l1_snr [[5/12]] (shrink_filter [[1]] 2) = Inr (Fin (11/12))
   \<and> (\<exists>st'. ks_gridsearch shrink_filter l1_snr 3 (pixel 1 (5/12)) = Inr st'
      \<and> smooth_max st' = 1 \<and> snr_max st' = Fin (11/12))"
proof -
  let ?sc = "\<lambda>k. Fin (1 - \<bar>5/12 - 1 / (1 + real k)\<bar>)"
  let ?nb = "pixel 1 (5/12)"
  have h1: "\<forall>j\<in>{1..nat 3}.
      l1_snr (np_real (kappa_true ?nb)) (shrink_filter (np_real (ks ?nb)) (real j)) = Inr (?sc j)"
    by (simp add: input_defs)
  have h2: "(1::nat) \<in> {1..nat 3}" by simp
  have h3: "float_gt (?sc 1) (Fin 0)" by simp
  have h4: "\<forall>j\<in>{1..nat 3}. \<not> float_gt (?sc j) (?sc 1)"
  proof
    fix j :: nat assume "j \<in> {1..nat 3}"
    then have "j = 1 \<or> j = 2 \<or> j = 3" by (rule steps3)
    then show "\<not> float_gt (?sc j) (?sc 1)" by auto
  qed
  have h5: "\<forall>j\<in>{1..<1::nat}. ?sc j \<noteq> ?sc 1" by simp
  from gridsearch_smallest_best_scale
    [where gf = shrink_filter and snr = l1_snr and sc = ?sc and st = ?nb and k = 1 and n = 3,
      OF h1 h2 h3 h4 h5]
  have "\<exists>st'. ks_gridsearch shrink_filter l1_snr 3 ?nb = Inr st'
      \<and> smooth_max st' = 1 \<and> snr_max st' = Fin (11/12)"
    by simp
  moreover have "l1_snr [[5/12]] (shrink_filter [[1]] 1) = Inr (Fin (11/12))"
    "l1_snr [[5/12]] (shrink_filter [[1]] 2) = Inr (Fin (11/12))"
    by (simp_all add: input_defs)
  ultimately show ?thesis by blast
qed

text \<open>
  The claim as stated fails where the tied maximum is below the initial score: with two
  steps, the scales 1 and 2 both score \<open>-1\<close>, no other score exists, and the returned scale
  is 0, not 1.
\<close>

theorem tie_below_zero_returns_scale_zero:
  "l1_snr [[10]] (shrink_filter [[24]] 1) = Inr (Fin (- 1))
   \<and> l1_snr [[10]] (shrink_filter [[24]] 2) = Inr (Fin (- 1))
   \<and> search_result (ks_gridsearch shrink_filter l1_snr 2 (pixel 24 10))
      = Inr (0, Some [[24]], Fin 0)"
  by (simp add: run_defs)

subsection \<open>C4: fields of differing shapes\<close>

text \<open>
  Claim C4, amended. The gridsearch has no shape check of its own and raises nothing
  itself. When it fails, the error is the one a scorer call raised at some scale \<open>k\<close> of
  the scan, the calls made until then are the complete filter and scorer calls of the
  scales 1 to \<open>k\<close> (so the filter has run at least once, at scale 1, before the failure),
  and no output field is produced: \<open>optimal_ks\<close> is left as it was. In particular, for a
  step count of at least 1, if the scorer raises on the ground truth and the raw estimate
  filtered at scale 1, as a scorer that checks shapes does on fields of differing shapes,
  the gridsearch fails with that error after exactly that one filter call.
\<close>

theorem gridsearch_fails_in_scorer_only:
  "(ks_gridsearch gf snr n st = Inl (e, st') \<longrightarrow>
      optimal_ks st' = optimal_ks st \<and>
      (\<exists>k. 1 \<le> k \<and> k \<le> nat n
         \<and> snr (np_real (kappa_true st)) (gf (np_real (ks st)) (real k)) = Inl e
         \<and> calls st' = calls st @ scan_calls gf st [1..<Suc k]))
   \<and> (1 \<le> n \<and> snr (np_real (kappa_true st)) (gf (np_real (ks st)) 1) = Inl e \<longrightarrow>
      ks_gridsearch gf snr n st =
        Inl (e, st\<lparr>snr_max := Fin 0, smooth_max := 0,
               smoothed_ks := Some (gf (np_real (ks st)) 1),
               calls := calls st @ [Gaussian_filter (np_real (ks st)) 1,
                 Snr (np_real (kappa_true st)) (gf (np_real (ks st)) 1)]\<rparr>))"
  using gridsearch_fails [of gf snr n st e st'] gridsearch_fails_first [of n snr st gf e]
  by blast

text \<open>
  The theorem on the 4 by 4 estimate and the 8 by 8 ground truth with two steps.
\<close>

theorem gridsearch_fails_in_scorer_only_witness:
  "(1::int) \<le> 2
   \<and> l1_snr (np_real (kappa_true mismatched)) (shrink_filter (np_real (ks mismatched)) 1)
       = Inl ValueError
   \<and> (\<exists>st'. ks_gridsearch shrink_filter l1_snr 2 mismatched = Inl (ValueError, st')
        \<and> optimal_ks st' = None
        \<and> (\<exists>k. 1 \<le> k \<and> k \<le> 2
             \<and> calls st' = scan_calls shrink_filter mismatched [1..<Suc k]))"
proof -
  let ?st' = "mismatched\<lparr>snr_max := Fin 0, smooth_max := 0,
               smoothed_ks := Some (shrink_filter (np_real (ks mismatched)) 1),
               calls := calls mismatched @ [Gaussian_filter (np_real (ks mismatched)) 1,
                 Snr (np_real (kappa_true mismatched))
                   (shrink_filter (np_real (ks mismatched)) 1)]\<rparr>"
  note inst = gridsearch_fails_in_scorer_only
    [where gf = shrink_filter and snr = l1_snr and n = 2 and st = mismatched
      and e = ValueError and st' = ?st']
  have h1: "(1::int) \<le> 2" by simp
  have h2: "l1_snr (np_real (kappa_true mismatched))
      (shrink_filter (np_real (ks mismatched)) 1) = Inl ValueError"
    by (simp add: input_defs mismatched_def zeros_def)
  from inst h1 h2 have f: "ks_gridsearch shrink_filter l1_snr 2 mismatched = Inl (ValueError, ?st')"
    by blast
  with inst have "optimal_ks ?st' = optimal_ks mismatched"
    "\<exists>k. 1 \<le> k \<and> k \<le> nat 2
       \<and> calls ?st' = calls mismatched @ scan_calls shrink_filter mismatched [1..<Suc k]"
    by blast+
  moreover have "optimal_ks mismatched = None" "calls mismatched = []"
    by (simp_all add: mismatched_def)
  ultimately have "optimal_ks ?st' = None"
    "\<exists>k. 1 \<le> k \<and> k \<le> 2 \<and> calls ?st' = scan_calls shrink_filter mismatched [1..<Suc k]"
    by simp_all
  with h1 h2 f show ?thesis by blast
qed

text \<open>
  The claim as stated fails on the notebook's cell with a 4 by 4 estimate and an 8 by 8
  ground truth: the cell fails, but with the scorer's \<open>ValueError\<close> and only after the
  filter has been computed at scale 1 and its result bound to \<open>smoothed_ks\<close>.
\<close>

theorem mismatched_shapes_fail_after_first_blur:
  "notebook_cell shrink_filter l1_snr mismatched =
     Inl (ValueError,
       mismatched\<lparr>smoothed_ks := Some (replicate 4 (replicate 4 0)),
         calls := [Gaussian_filter (replicate 4 (replicate 4 0)) 1,
                   Snr (replicate 8 (replicate 8 0)) (replicate 4 (replicate 4 0))]\<rparr>)"
proof -
  have "l1_snr (np_real (kappa_true mismatched))
      (shrink_filter (np_real (ks mismatched)) 1) = Inl ValueError"
    by (simp add: input_defs mismatched_def zeros_def)
  from gridsearch_fails_first [where gf = shrink_filter and snr = l1_snr and n = 30, OF _ this]
  show ?thesis
    by (simp add: notebook_cell_def input_defs mismatched_def zeros_def)
qed

subsection \<open>C5: the trivial best\<close>

text \<open>
  Claim C5. The scan starts from the score 0 and the scale 0 whatever the two variables
  held before, and on every input where the scorer returns and no candidate scores
  strictly more than 0 the gridsearch returns the trivial best: scale 0, score 0 and the
  raw estimate filtered at scale 0.
\<close>

theorem gridsearch_trivial_best:
  assumes "\<forall>k\<in>{1..nat n}.
      snr (np_real (kappa_true st)) (gf (np_real (ks st)) (real k)) = Inr (sc k)"
    and "\<forall>k\<in>{1..nat n}. \<not> float_gt (sc k) (Fin 0)"
  shows "ks_gridsearch gf snr n (st\<lparr>snr_max := m0, smooth_max := s0\<rparr>)
      = ks_gridsearch gf snr n st
    \<and> (\<exists>st'. ks_gridsearch gf snr n st = Inr st' \<and> smooth_max st' = 0
      \<and> snr_max st' = Fin 0 \<and> optimal_ks st' = Some (gf (np_real (ks st)) 0))"
proof -
  let ?cs = "map (\<lambda>k. (real k, sc k)) [1..<Suc (nat n)]"
  from gridsearch_returns [where gf = gf and snr = snr and sc = sc, OF assms(1)]
  obtain st' where st': "ks_gridsearch gf snr n st = Inr st'"
    "(snr_max st', smooth_max st') = best_so_far (Fin 0, 0) ?cs"
    "optimal_ks st' = Some (gf (np_real (ks st)) (smooth_max st'))"
    by blast
  have "best_so_far (Fin 0, 0::real) ?cs = (Fin 0, 0)"
    using assms(2) unfolding set_scales by (intro best_so_far_keep) auto
  with st' have "\<exists>st'. ks_gridsearch gf snr n st = Inr st' \<and> smooth_max st' = 0
      \<and> snr_max st' = Fin 0 \<and> optimal_ks st' = Some (gf (np_real (ks st)) 0)"
    by simp
  moreover have "ks_gridsearch gf snr n (st\<lparr>snr_max := m0, smooth_max := s0\<rparr>)
      = ks_gridsearch gf snr n st"
    by (simp add: ks_gridsearch_def)
  ultimately show ?thesis by blast
qed

text \<open>
  The theorem at a single pixel with two steps, both scoring \<open>-1\<close>.
\<close>

theorem gridsearch_trivial_best_witness:
  "\<exists>st'. ks_gridsearch shrink_filter l1_snr 2 (pixel 24 10) = Inr st' \<and> smooth_max st' = 0
    \<and> snr_max st' = Fin 0 \<and> optimal_ks st' = Some [[24]]"
proof -
  let ?sc = "\<lambda>k. Fin (1 - \<bar>10 - 24 / (1 + real k)\<bar>)"
  let ?nb = "pixel 24 10"
  have h1: "\<forall>k\<in>{1..nat 2}.
      l1_snr (np_real (kappa_true ?nb)) (shrink_filter (np_real (ks ?nb)) (real k)) = Inr (?sc k)"
    by (simp add: input_defs)
  have h2: "\<forall>k\<in>{1..nat 2}. \<not> float_gt (?sc k) (Fin 0)"
  proof
    fix k :: nat assume "k \<in> {1..nat 2}"
    then have "k = 1 \<or> k = 2" by (rule steps2)
    then show "\<not> float_gt (?sc k) (Fin 0)" by auto
  qed
  from gridsearch_trivial_best
    [where gf = shrink_filter and snr = l1_snr and sc = ?sc and st = ?nb and n = 2, OF h1 h2]
  have "\<exists>st'. ks_gridsearch shrink_filter l1_snr 2 ?nb = Inr st' \<and> smooth_max st' = 0
      \<and> snr_max st' = Fin 0 \<and> optimal_ks st' = Some (shrink_filter (np_real (ks ?nb)) 0)"
    by blast
  then show ?thesis by (simp add: input_defs)
qed

subsection \<open>C6: the best scale stays in range\<close>

text \<open>
  Claim C6. For every step count \<open>n \<ge> 1\<close> on which the scorer returns, the returned best
  scale lies in the closed interval from 0 to \<open>n\<close>; and for every \<open>i \<le> n\<close> the state \<open>s\<close>
  after the first \<open>i\<close> iterations, from which the rest of the scan continues, has its
  running best scale between 0 and \<open>i\<close>.
\<close>

theorem gridsearch_best_scale_bounds:
  assumes "1 \<le> n"
    and "\<forall>k\<in>{1..nat n}.
      snr (np_real (kappa_true st)) (gf (np_real (ks st)) (real k)) = Inr (sc k)"
  shows "\<exists>st'. ks_gridsearch gf snr n st = Inr st'
    \<and> 0 \<le> smooth_max st' \<and> smooth_max st' \<le> real_of_int n
    \<and> (\<forall>i\<le>nat n. \<exists>s.
          scan gf snr [0..<i] (st\<lparr>snr_max := Fin 0, smooth_max := 0\<rparr>) = Inr s
        \<and> scan gf snr (py_range n) (st\<lparr>snr_max := Fin 0, smooth_max := 0\<rparr>)
            = scan gf snr [i..<nat n] s
        \<and> 0 \<le> smooth_max s \<and> smooth_max s \<le> real i)"
proof -
  let ?st0 = "st\<lparr>snr_max := Fin 0, smooth_max := 0\<rparr>"
  have inv: "\<exists>s. scan gf snr [0..<i] ?st0 = Inr s
        \<and> scan gf snr (py_range n) ?st0 = scan gf snr [i..<nat n] s
        \<and> 0 \<le> smooth_max s \<and> smooth_max s \<le> real i" if i: "i \<le> nat n" for i
  proof -
    have "\<forall>j\<in>set [0..<i].
      snr (np_real (kappa_true ?st0)) (gf (np_real (ks ?st0)) (real (j + 1))) = Inr (sc (j + 1))"
    proof
      fix j assume "j \<in> set [0..<i]"
      with i have "j + 1 \<in> {1..nat n}" by simp
      with assms(2) show "snr (np_real (kappa_true ?st0)) (gf (np_real (ks ?st0)) (real (j + 1)))
          = Inr (sc (j + 1))"
        by (simp del: of_nat_add of_nat_Suc)
    qed
    from scan_returns [where sc = sc and js = "[0..<i]" and st = ?st0 and gf = gf and snr = snr,
        OF this]
    obtain s where s: "scan gf snr [0..<i] ?st0 = Inr s"
      "(snr_max s, smooth_max s) = best_so_far (snr_max ?st0, smooth_max ?st0)
          (map (\<lambda>j. (real (j + 1), sc (j + 1))) [0..<i])"
      by blast
    from s(2) have "smooth_max s
        = snd (best_so_far (Fin 0, 0) (map (\<lambda>j. (real (j + 1), sc (j + 1))) [0..<i]))"
      by (simp add: prod_eq_iff)
    with best_so_far_scale_bounds [of "(Fin 0, 0)" i sc]
    have b: "0 \<le> smooth_max s \<and> smooth_max s \<le> real i" by simp
    from i have "[0..<nat n] = [0..<i] @ [i..<nat n]"
      using upt_add_eq_append [of 0 i "nat n - i"] by simp
    then have "scan gf snr (py_range n) ?st0 = scan gf snr [i..<nat n] s"
      using s(1) by (simp add: py_range_def scan_append)
    with s(1) b show ?thesis by blast
  qed
  from inv [of "nat n"] obtain s where s: "scan gf snr [0..<nat n] ?st0 = Inr s"
    "0 \<le> smooth_max s" "smooth_max s \<le> real (nat n)" by auto
  let ?st' = "s\<lparr>optimal_ks := Some (gf (np_real (ks s)) (smooth_max s)),
                   calls := calls s @ [Gaussian_filter (np_real (ks s)) (smooth_max s)]\<rparr>"
  have "ks_gridsearch gf snr n st = Inr ?st'"
    using s(1) by (simp add: ks_gridsearch_def py_range_def)
  moreover have "0 \<le> smooth_max ?st'" "smooth_max ?st' \<le> real_of_int n"
    using s(2,3) assms(1) by simp_all
  ultimately show ?thesis using inv by blast
qed

text \<open>
  The theorem at a single pixel with three steps.
\<close>

theorem gridsearch_best_scale_bounds_witness:
  "(1::int) \<le> 3 \<and> (\<exists>st'. ks_gridsearch shrink_filter l1_snr 3 (pixel 1 (1/2)) = Inr st'
      \<and> 0 \<le> smooth_max st' \<and> smooth_max st' \<le> 3)"
proof -
  let ?sc = "\<lambda>k. Fin (1 - \<bar>1/2 - 1 / (1 + real k)\<bar>)"
  let ?nb = "pixel 1 (1/2)"
  have h1: "(1::int) \<le> 3" by simp
  have h2: "\<forall>k\<in>{1..nat 3}.
      l1_snr (np_real (kappa_true ?nb)) (shrink_filter (np_real (ks ?nb)) (real k)) = Inr (?sc k)"
    by (simp add: input_defs)
  from gridsearch_best_scale_bounds
    [where gf = shrink_filter and snr = l1_snr and sc = ?sc and st = ?nb, OF h1 h2]
  obtain st' where "ks_gridsearch shrink_filter l1_snr 3 ?nb = Inr st'"
    "0 \<le> smooth_max st'" "smooth_max st' \<le> real_of_int 3"
    by blast
  with h1 show ?thesis by auto
qed

subsection \<open>C7: determinism\<close>

text \<open>
  Claim C7. The result triple (or the error) is a function of the raw estimate, the
  ground truth, the step count and the two collaborators alone: two notebooks that agree
  on \<open>ks\<close> and \<open>kappa_true\<close> give the same result whatever their other variables hold, and
  running the cell a second time, on the variables the first run left, gives the result
  of the first run again. The collaborators are functions here, so they return the same
  value on the same arguments.
\<close>

theorem gridsearch_deterministic:
  "(ks a = ks b \<and> kappa_true a = kappa_true b \<longrightarrow>
      search_result (ks_gridsearch gf snr n a) = search_result (ks_gridsearch gf snr n b))
   \<and> search_result (ks_gridsearch gf snr n (final_state (ks_gridsearch gf snr n st)))
      = search_result (ks_gridsearch gf snr n st)"
proof -
  have "search_result (ks_gridsearch gf snr n a) = search_result (ks_gridsearch gf snr n b)"
    if "ks a = ks b \<and> kappa_true a = kappa_true b"
    using that by (intro search_result_cong) simp_all
  moreover have "search_result (ks_gridsearch gf snr n (final_state (ks_gridsearch gf snr n st)))
      = search_result (ks_gridsearch gf snr n st)"
    using gridsearch_frame [of gf snr n st] by (intro search_result_cong) simp_all
  ultimately show ?thesis by blast
qed

text \<open>
  The theorem at a single pixel: a fresh notebook against one with other stale
  variables, and a second run after the first.
\<close>

theorem gridsearch_deterministic_witness:
  "search_result (ks_gridsearch shrink_filter l1_snr 3 (pixel 1 (1/2)))
     = search_result (ks_gridsearch shrink_filter l1_snr 3
         ((pixel 1 (1/2))\<lparr>snr_max := PosInf, smooth_max := 99, optimal_ks := Some [[5]]\<rparr>))
   \<and> search_result (ks_gridsearch shrink_filter l1_snr 3
         (final_state (ks_gridsearch shrink_filter l1_snr 3 (pixel 1 (1/2)))))
     = search_result (ks_gridsearch shrink_filter l1_snr 3 (pixel 1 (1/2)))"
  using gridsearch_deterministic [of "pixel 1 (1/2)"
      "(pixel 1 (1/2))\<lparr>snr_max := PosInf, smooth_max := 99, optimal_ks := Some [[5]]\<rparr>"
      shrink_filter l1_snr 3 "pixel 1 (1/2)"]
  by simp

subsection \<open>C8: the inputs are not written\<close>

text \<open>
  Claim C8. Whether the gridsearch returns or fails, \<open>ks\<close> and \<open>kappa_true\<close> hold the
  same values afterwards as before: the cell assigns only its own variables, and each
  filter call yields a new field.
\<close>

theorem gridsearch_leaves_inputs:
  "ks (final_state (ks_gridsearch gf snr n st)) = ks st
   \<and> kappa_true (final_state (ks_gridsearch gf snr n st)) = kappa_true st"
  by (rule gridsearch_frame)

text \<open>
  The theorem at a single pixel with three steps.
\<close>

theorem gridsearch_leaves_inputs_witness:
  "ks (final_state (ks_gridsearch shrink_filter l1_snr 3 (pixel 1 (1/2)))) = [[1]]
   \<and> kappa_true (final_state (ks_gridsearch shrink_filter l1_snr 3 (pixel 1 (1/2)))) = [[1/2]]"
  using gridsearch_leaves_inputs [of shrink_filter l1_snr 3 "pixel 1 (1/2)"]
  by (simp add: pixel_def)

subsection \<open>C9: the recomputed field is the tracked best candidate\<close>

text \<open>
  Claim C9. The cell does not carry the best smoothed field along: after the scan it
  calls the filter once more, on the raw estimate at the best scale, and returns that.
  Provided the filter at scale 0 is the identity on the raw estimate, the returned triple
  is the one of the search that tracks the best field during the scan, and an error is
  the same error.
\<close>

theorem recomputed_field_is_tracked_best:
  assumes "gf (np_real (ks st)) 0 = np_real (ks st)"
  shows "search_result (ks_gridsearch gf snr n st) =
     (case tracked_search gf snr (np_real (ks st)) (np_real (kappa_true st)) n of
        Inl e \<Rightarrow> Inl e
      | Inr (s, f, m) \<Rightarrow> Inr (s, Some f, m))
    \<and> (\<forall>st'. ks_gridsearch gf snr n st = Inr st' \<longrightarrow>
          optimal_ks st' = Some (gf (np_real (ks st)) (smooth_max st'))
        \<and> last (calls st') = Gaussian_filter (np_real (ks st)) (smooth_max st'))"
proof -
  let ?st0 = "st\<lparr>snr_max := Fin 0, smooth_max := 0\<rparr>"
  have "optimal_ks st' = Some (gf (np_real (ks st)) (smooth_max st'))
        \<and> last (calls st') = Gaussian_filter (np_real (ks st)) (smooth_max st')"
    if r: "ks_gridsearch gf snr n st = Inr st'" for st'
  proof -
    from r obtain s where s: "scan gf snr (py_range n) ?st0 = Inr s"
      "st' = s\<lparr>optimal_ks := Some (gf (np_real (ks s)) (smooth_max s)),
                   calls := calls s @ [Gaussian_filter (np_real (ks s)) (smooth_max s)]\<rparr>"
      by (auto simp: ks_gridsearch_def split: sum.splits)
    from scan_frame [of gf snr "py_range n" ?st0] s(1) have "ks s = ks st"
      by (simp add: final_state_def)
    with s(2) show ?thesis by simp
  qed
  with gridsearch_tracked [where gf = gf and snr = snr and n = n, OF assms] show ?thesis by blast
qed

text \<open>
  The theorem at a single pixel with three steps: both searches return scale 1, the
  field 1/2 and the score 1.
\<close>

theorem recomputed_field_is_tracked_best_witness:
  "shrink_filter (np_real (ks (pixel 1 (1/2)))) 0 = np_real (ks (pixel 1 (1/2)))
   \<and> search_result (ks_gridsearch shrink_filter l1_snr 3 (pixel 1 (1/2)))
      = Inr (1, Some [[1/2]], Fin 1)
   \<and> tracked_search shrink_filter l1_snr [[1]] [[1/2]] 3 = Inr (1, [[1/2]], Fin 1)
   \<and> (\<exists>st'. ks_gridsearch shrink_filter l1_snr 3 (pixel 1 (1/2)) = Inr st'
        \<and> optimal_ks st' = Some (shrink_filter [[1]] (smooth_max st'))
        \<and> last (calls st') = Gaussian_filter [[1]] (smooth_max st'))"
proof -
  let ?nb = "pixel 1 (1/2)"
  have h: "shrink_filter (np_real (ks ?nb)) 0 = np_real (ks ?nb)"
    by (simp add: input_defs)
  have t: "tracked_search shrink_filter l1_snr [[1]] [[1/2]] 3 = Inr (1, [[1/2]], Fin 1)"
    by (simp add: tracked_search_def input_defs upt_rec Let_def)
  have raw: "np_real (ks ?nb) = [[1]]" and truth: "np_real (kappa_true ?nb) = [[1/2]]"
    by (simp_all add: input_defs)
  note inst = recomputed_field_is_tracked_best
    [where gf = shrink_filter and snr = l1_snr and n = 3 and st = ?nb, OF h]
  from inst have r: "search_result (ks_gridsearch shrink_filter l1_snr 3 ?nb)
      = Inr (1, Some [[1/2]], Fin 1)"
    unfolding raw truth t by simp
  then obtain st' where st': "ks_gridsearch shrink_filter l1_snr 3 ?nb = Inr st'"
    by (cases "ks_gridsearch shrink_filter l1_snr 3 ?nb") (auto simp: search_result_def)
  with inst have "optimal_ks st' = Some (shrink_filter [[1]] (smooth_max st'))"
    "last (calls st') = Gaussian_filter [[1]] (smooth_max st')"
    unfolding raw by blast+
  with h r t st' show ?thesis by blast
qed

subsection \<open>C10: only the real parts of the inputs matter\<close>

text \<open>
  Claim C10. Two notebooks whose estimates have the same real parts and whose ground
  truths have the same real parts give the same result triple (or the same error),
  whatever the imaginary parts are.
\<close>

theorem gridsearch_reads_real_parts_only:
  assumes "np_real (ks a) = np_real (ks b)"
    and "np_real (kappa_true a) = np_real (kappa_true b)"
  shows "search_result (ks_gridsearch gf snr n a) = search_result (ks_gridsearch gf snr n b)"
  using assms by (rule search_result_cong)

text \<open>
  The theorem at two single-pixel notebooks that differ in the imaginary parts only.
\<close>

theorem gridsearch_reads_real_parts_only_witness:
  "np_real (ks (pixel (Complex 1 5) (Complex (1/2) 3)))
     = np_real (ks (pixel (Complex 1 (- 2)) (Complex (1/2) 0)))
   \<and> np_real (kappa_true (pixel (Complex 1 5) (Complex (1/2) 3)))
     = np_real (kappa_true (pixel (Complex 1 (- 2)) (Complex (1/2) 0)))
   \<and> search_result (ks_gridsearch shrink_filter l1_snr 3 (pixel (Complex 1 5) (Complex (1/2) 3)))
     = search_result (ks_gridsearch shrink_filter l1_snr 3
         (pixel (Complex 1 (- 2)) (Complex (1/2) 0)))"
proof -
  have h1: "np_real (ks (pixel (Complex 1 5) (Complex (1/2) 3)))
     = np_real (ks (pixel (Complex 1 (- 2)) (Complex (1/2) 0)))"
    by (simp add: input_defs)
  have h2: "np_real (kappa_true (pixel (Complex 1 5) (Complex (1/2) 3)))
     = np_real (kappa_true (pixel (Complex 1 (- 2)) (Complex (1/2) 0)))"
    by (simp add: input_defs)
  from gridsearch_reads_real_parts_only [OF h1 h2] h1 h2 show ?thesis by blast
qed

end
